theory Spec2Isabelle
  imports Complex_Main
begin

section \<open>Golf course and score tracker: a model of App.py\<close>

text \<open>
  App.py keeps three SQLite tables (courses, rounds, holes) behind a handful of
  functions. Every function opens its own connection with \<^verbatim>\<open>db()\<close>, runs its
  statements, commits and closes; a function that raises never reaches its commit, so
  the file is left as it was. The model therefore passes the database explicitly: a
  function takes the tables and returns either an error or its result together with the
  new tables.

  What the model fixes about the libraries the source calls:
  \<^item> text is a \<open>string\<close> whose characters are the code points 0..255;
  \<^item> a Python \<^verbatim>\<open>dict\<close> keeps its keys in insertion order and is an association list
    with distinct keys;
  \<^item> a moment of \<^verbatim>\<open>datetime.utcnow()\<close> is an integer number of microseconds; the text
    that \<^verbatim>\<open>utc_now_iso()\<close> returns is a whole second in fixed-width ISO form, whose text
    order is the order of the seconds, and is represented by its number of seconds;
  \<^item> coordinates are only stored, never computed with, and are real numbers;
  \<^item> SQLite binds a Python integer only when it fits in 64 bits, checks NOT NULL and
    CHECK constraints on the row of an INSERT, enforces FOREIGN KEY clauses only on a
    connection that has switched them on, and draws a fresh rowid of an AUTOINCREMENT
    table for every INSERT statement that completes, also when the statement ends in
    its ON CONFLICT DO UPDATE branch. The rowid counter itself is unbounded in the model.
\<close>

subsection \<open>Python values\<close>

type_synonym 'v dict = "(string \<times> 'v) list"

definition get :: "'v dict \<Rightarrow> string \<Rightarrow> 'v option" where
  "get d k = map_of d k"

text \<open>\<^verbatim>\<open>x or ""\<close> for an optional string, and \<^verbatim>\<open>s or None\<close> for a string.\<close>

definition or_empty :: "string option \<Rightarrow> string" where
  "or_empty x = (case x of None \<Rightarrow> [] | Some s \<Rightarrow> s)"

definition or_None :: "string \<Rightarrow> string option" where
  "or_None s = (if s = [] then None else Some s)"

text \<open>\<^verbatim>\<open>x or {}\<close> for an optional dict.\<close>

definition or_empty_dict :: "'v dict option \<Rightarrow> 'v dict" where
  "or_empty_dict x = (case x of None \<Rightarrow> [] | Some t \<Rightarrow> t)"

text \<open>\<^verbatim>\<open>str.isspace\<close>, \<^verbatim>\<open>str.strip()\<close> and \<^verbatim>\<open>str.lower()\<close> on the code points below 256.\<close>

definition isspace :: "char \<Rightarrow> bool" where
  "isspace c =
     (let n = (of_char c :: nat)
      in (9 \<le> n \<and> n \<le> 13) \<or> (28 \<le> n \<and> n \<le> 32) \<or> n = 133 \<or> n = 160)"

definition strip :: "string \<Rightarrow> string" where
  "strip s = rev (dropWhile isspace (rev (dropWhile isspace s)))"

definition lower_char :: "char \<Rightarrow> char" where
  "lower_char c =
     (let n = (of_char c :: nat)
      in if (65 \<le> n \<and> n \<le> 90) \<or> (192 \<le> n \<and> n \<le> 222 \<and> n \<noteq> 215)
         then char_of (n + 32) else c)"

definition lower :: "string \<Rightarrow> string" where
  "lower s = map lower_char s"

datatype error =
    TypeError
  | OverflowError
  | IntegrityError string
  | RequestError string

subsection \<open>Time\<close>

type_synonym instant = int

definition utc_now_iso :: "instant \<Rightarrow> int" where
  "utc_now_iso now = now div 1000000"

definition COURSE_CACHE_TTL_SEC :: int where
  "COURSE_CACHE_TTL_SEC = 7 * 24 * 3600"

subsection \<open>The database\<close>

record course =
  courses_id :: int
  osm_type :: string
  osm_id :: int
  name :: string
  lat :: "real option"
  lon :: "real option"
  access :: "string option"
  raw_tags_json :: "string dict option"
  updated_at_utc :: int

record round =
  rounds_id :: int
  played_on :: string
  course_id :: int
  tees :: "string option"
  round_notes :: "string option"
  created_at_utc :: int

record hole =
  holes_id :: int
  round_id :: int
  hole_number :: int
  strokes :: int
  putts :: "int option"
  penalties :: "int option"
  hole_comment :: "string option"

record database =
  courses :: "course list"
  courses_seq :: int
  rounds :: "round list"
  rounds_seq :: int
  holes :: "hole list"
  holes_seq :: int

record connection =
  foreign_keys :: bool

text \<open>
  \<^verbatim>\<open>db()\<close> connects and sets the row factory. It issues no
  \<^verbatim>\<open>PRAGMA foreign_keys = ON\<close>, so the connection keeps SQLite's default.
\<close>

definition db :: connection where
  "db = \<lparr>foreign_keys = False\<rparr>"

text \<open>
  \<^verbatim>\<open>init_db()\<close> creates each table only if it does not exist: a new file gets three
  empty tables, an existing one is left alone.
\<close>

definition init_db :: "database option \<Rightarrow> database" where
  "init_db file =
     (case file of
        None \<Rightarrow> \<lparr>courses = [], courses_seq = 0, rounds = [], rounds_seq = 0,
                 holes = [], holes_seq = 0\<rparr>
      | Some d \<Rightarrow> d)"

definition sqlite_int :: "int \<Rightarrow> bool" where
  "sqlite_int i = (- (2 ^ 63) \<le> i \<and> i < 2 ^ 63)"

definition sqlite_int_opt :: "int option \<Rightarrow> bool" where
  "sqlite_int_opt x = (case x of None \<Rightarrow> True | Some i \<Rightarrow> sqlite_int i)"

subsection \<open>Fetching and normalising courses\<close>

record element =
  el_type :: "string option"
  el_id :: "int option"
  el_lat :: "real option"
  el_lon :: "real option"
  el_center :: "(real option \<times> real option) option"
  el_tags :: "string dict option"

text \<open>
  The service is a parameter: what the POST, \<^verbatim>\<open>raise_for_status()\<close> and \<^verbatim>\<open>json()\<close>
  give for a centre and a radius, either an error or the \<^verbatim>\<open>"elements"\<close> entry of
  the body when it has one.
\<close>

type_synonym overpass = "real \<Rightarrow> real \<Rightarrow> int \<Rightarrow> error + element list option"

definition fetch_courses_overpass ::
  "overpass \<Rightarrow> real \<Rightarrow> real \<Rightarrow> int \<Rightarrow> error + element list" where
  "fetch_courses_overpass service la lo radius_m =
     (case service la lo radius_m of
        Inl e \<Rightarrow> Inl e
      | Inr data \<Rightarrow> Inr (case data of None \<Rightarrow> [] | Some elements \<Rightarrow> elements))"

definition element_center_lat_lon :: "element \<Rightarrow> real option \<times> real option" where
  "element_center_lat_lon el =
     (if el_type el = Some ''node'' then (el_lat el, el_lon el)
      else (let center = (case el_center el of None \<Rightarrow> (None, None) | Some c \<Rightarrow> c)
            in (fst center, snd center)))"

definition normalize_access :: "string dict \<Rightarrow> string" where
  "normalize_access tags =
     (let access = lower (strip (or_empty (get tags ''access'')))
      in if access \<noteq> [] then access
         else (let membership = lower (strip (or_empty (get tags ''membership'')))
               in if membership \<in> {''yes'', ''required''} then ''private''
                  else ''unknown''))"

text \<open>
  The label that \<^verbatim>\<open>load_courses_df\<close> shows for a stored access value: its inner
  function \<^verbatim>\<open>access_label\<close>, applied to the access column, which may be NULL.
\<close>

definition access_label :: "string option \<Rightarrow> string" where
  "access_label a =
     (let a' = lower (case a of None \<Rightarrow> ''unknown''
                              | Some s \<Rightarrow> if s = [] then ''unknown'' else s)
      in if a' = ''private'' then ''Private''
         else if a' \<in> {''yes'', ''permissive'', ''customers''} then ''Public/Playable''
         else ''Unknown'')"

text \<open>The INSERT ... ON CONFLICT(osm_type, osm_id) DO UPDATE statement of \<^verbatim>\<open>upsert_courses\<close>.\<close>

definition same_course :: "string \<Rightarrow> int \<Rightarrow> course \<Rightarrow> bool" where
  "same_course ty i r = (osm_type r = ty \<and> osm_id r = i)"

definition do_update_course ::
  "string \<Rightarrow> real option \<Rightarrow> real option \<Rightarrow> string \<Rightarrow> string dict \<Rightarrow> int \<Rightarrow> course \<Rightarrow> course" where
  "do_update_course nm la lo acc raw_tags ts r =
     r\<lparr>name := nm, lat := la, lon := lo, access := Some acc,
       raw_tags_json := Some raw_tags, updated_at_utc := ts\<rparr>"

definition execute_upsert_course ::
  "string option \<Rightarrow> int \<Rightarrow> string \<Rightarrow> real option \<Rightarrow> real option \<Rightarrow> string \<Rightarrow>
   string dict \<Rightarrow> int \<Rightarrow> database \<Rightarrow> error + database" where
  "execute_upsert_course ty i nm la lo acc raw_tags ts d =
     (if \<not> sqlite_int i then Inl OverflowError
      else case ty of
        None \<Rightarrow> Inl (IntegrityError ''NOT NULL constraint failed: courses.osm_type'')
      | Some t \<Rightarrow>
          (let rowid = courses_seq d + 1
           in if \<exists>r \<in> set (courses d). same_course t i r
              then Inr (d\<lparr>courses :=
                            map (\<lambda>r. if same_course t i r
                                     then do_update_course nm la lo acc raw_tags ts r
                                     else r) (courses d),
                          courses_seq := rowid\<rparr>)
              else Inr (d\<lparr>courses := courses d @
                            [\<lparr>courses_id = rowid, osm_type = t, osm_id = i, name = nm,
                              lat = la, lon = lo, access = Some acc,
                              raw_tags_json = Some raw_tags, updated_at_utc = ts\<rparr>],
                          courses_seq := rowid\<rparr>)))"

text \<open>
  The loop of \<^verbatim>\<open>upsert_courses\<close>. \<open>clock k\<close> is the moment \<^verbatim>\<open>utc_now_iso()\<close> reads on
  its call number \<open>k\<close> of this run, counted from 0; the loop reads the clock once for
  every element it stores, so \<open>updated\<close> is also the number of readings so far.
  \<^verbatim>\<open>str(tags)\<close> is a function of the dict alone, and the column is modelled by the dict.
\<close>

fun upsert_loop ::
  "(nat \<Rightarrow> instant) \<Rightarrow> element list \<Rightarrow> nat \<Rightarrow> database \<Rightarrow> error + nat \<times> database" where
  "upsert_loop clock [] updated d = Inr (updated, d)"
| "upsert_loop clock (el # els) updated d =
     (let tags = or_empty_dict (el_tags el);
          nm = get tags ''name''
      in if nm = None \<or> nm = Some [] then upsert_loop clock els updated d
         else (let (la, lo) = element_center_lat_lon el;
                   acc = normalize_access tags;
                   ty = el_type el
               in case el_id el of
                    None \<Rightarrow> Inl TypeError
                  | Some i \<Rightarrow>
                      (case execute_upsert_course ty i (or_empty nm) la lo acc tags
                              (utc_now_iso (clock updated)) d of
                         Inl e \<Rightarrow> Inl e
                       | Inr d' \<Rightarrow> upsert_loop clock els (updated + 1) d')))"

definition upsert_courses ::
  "(nat \<Rightarrow> instant) \<Rightarrow> element list \<Rightarrow> database \<Rightarrow> error + nat \<times> database" where
  "upsert_courses clock elements d = upsert_loop clock elements 0 d"

definition courses_last_updated :: "database \<Rightarrow> int option" where
  "courses_last_updated d =
     (if courses d = [] then None
      else Some (Max (set (map updated_at_utc (courses d)))))"

text \<open>
  \<^verbatim>\<open>(now - last).total_seconds()\<close>: the difference in microseconds, divided by a million.
  The float that Python computes is the correctly rounded quotient, and it is below the
  integer TTL exactly when the quotient is.
\<close>

definition age_sec :: "instant \<Rightarrow> int \<Rightarrow> real" where
  "age_sec now last' = real_of_int (now - last' * 1000000) / 1000000"

datatype status = Using_cached int | Refreshed nat

definition maybe_refresh_courses ::
  "overpass \<Rightarrow> instant \<Rightarrow> (nat \<Rightarrow> instant) \<Rightarrow> real \<Rightarrow> real \<Rightarrow> int \<Rightarrow> bool \<Rightarrow> database
   \<Rightarrow> error + status \<times> database" where
  "maybe_refresh_courses service now clock la lo radius_m force d =
     (let refresh =
            (case fetch_courses_overpass service la lo radius_m of
               Inl e \<Rightarrow> Inl e
             | Inr elements \<Rightarrow>
                 (case upsert_courses clock elements d of
                    Inl e \<Rightarrow> Inl e
                  | Inr (count, d') \<Rightarrow> Inr (Refreshed count, d')))
      in case courses_last_updated d of
           None \<Rightarrow> refresh
         | Some last' \<Rightarrow>
             if \<not> force \<and> age_sec now last' < real_of_int COURSE_CACHE_TTL_SEC
             then Inr (Using_cached last', d)
             else refresh)"

subsection \<open>Rounds and holes\<close>

definition create_round ::
  "instant \<Rightarrow> int \<Rightarrow> string \<Rightarrow> string \<Rightarrow> string \<Rightarrow> database \<Rightarrow> error + int \<times> database" where
  "create_round now cid played tee notes d =
     (let conn = db
      in if \<not> sqlite_int cid then Inl OverflowError
         else if foreign_keys conn \<and> cid \<notin> courses_id ` set (courses d)
         then Inl (IntegrityError ''FOREIGN KEY constraint failed'')
         else (let lastrowid = rounds_seq d + 1
               in Inr (lastrowid,
                       d\<lparr>rounds := rounds d @
                            [\<lparr>rounds_id = lastrowid, played_on = played, course_id = cid,
                              tees = or_None tee, round_notes = or_None notes,
                              created_at_utc = utc_now_iso now\<rparr>],
                          rounds_seq := lastrowid\<rparr>)))"

definition same_hole :: "int \<Rightarrow> int \<Rightarrow> hole \<Rightarrow> bool" where
  "same_hole rid h r = (round_id r = rid \<and> hole_number r = h)"

definition upsert_hole ::
  "int \<Rightarrow> int \<Rightarrow> int \<Rightarrow> int option \<Rightarrow> int option \<Rightarrow> string \<Rightarrow> database \<Rightarrow> error + database" where
  "upsert_hole rid h s p pen comment d =
     (let conn = db
      in if \<not> (sqlite_int rid \<and> sqlite_int h \<and> sqlite_int s \<and> sqlite_int_opt p
                \<and> sqlite_int_opt pen)
         then Inl OverflowError
         else if \<not> (1 \<le> h \<and> h \<le> 18)
         then Inl (IntegrityError ''CHECK constraint failed: hole_number BETWEEN 1 AND 18'')
         else if \<not> (1 \<le> s \<and> s \<le> 25)
         then Inl (IntegrityError ''CHECK constraint failed: strokes BETWEEN 1 AND 25'')
         else if foreign_keys conn \<and> rid \<notin> rounds_id ` set (rounds d)
         then Inl (IntegrityError ''FOREIGN KEY constraint failed'')
         else (let rowid = holes_seq d + 1
               in if \<exists>r \<in> set (holes d). same_hole rid h r
                  then Inr (d\<lparr>holes :=
                                map (\<lambda>r. if same_hole rid h r
                                         then r\<lparr>strokes := s, putts := p, penalties := pen,
                                                hole_comment := or_None comment\<rparr>
                                         else r) (holes d),
                              holes_seq := rowid\<rparr>)
                  else Inr (d\<lparr>holes := holes d @
                                [\<lparr>holes_id = rowid, round_id = rid, hole_number = h,
                                  strokes = s, putts = p, penalties = pen,
                                  hole_comment = or_None comment\<rparr>],
                              holes_seq := rowid\<rparr>)))"

text \<open>
  The save branch of \<^verbatim>\<open>main\<close>: one round, then one \<^verbatim>\<open>upsert_hole\<close> for every entry of
  the form, with putts and penalties passed only when they are positive. Each call
  commits on its own, so an error leaves the earlier writes in place; the result keeps
  the database reached together with the error, if any.
\<close>

type_synonym hole_entry = "int \<times> int \<times> int \<times> int \<times> string"

definition save_hole :: "int \<Rightarrow> hole_entry \<Rightarrow> database \<Rightarrow> error + database" where
  "save_hole new_round_id entry d =
     (case entry of (h, s, p, pen, comment) \<Rightarrow>
        upsert_hole new_round_id h s
          (if p > 0 then Some p else None)
          (if pen > 0 then Some pen else None)
          comment d)"

fun save_holes :: "int \<Rightarrow> hole_entry list \<Rightarrow> database \<Rightarrow> error option \<times> database" where
  "save_holes new_round_id [] d = (None, d)"
| "save_holes new_round_id (entry # hole_data) d =
     (case save_hole new_round_id entry d of
        Inl e \<Rightarrow> (Some e, d)
      | Inr d' \<Rightarrow> save_holes new_round_id hole_data d')"

definition save_round ::
  "instant \<Rightarrow> int \<Rightarrow> string \<Rightarrow> string \<Rightarrow> string \<Rightarrow> hole_entry list \<Rightarrow> database
   \<Rightarrow> error option \<times> database" where
  "save_round now cid played tee round_notes' hole_data d =
     (case create_round now cid played tee round_notes' d of
        Inl e \<Rightarrow> (Some e, d)
      | Inr (new_round_id, d') \<Rightarrow> save_holes new_round_id hole_data d')"

subsection \<open>The UNIQUE constraints of the schema\<close>

text \<open>
  \<^verbatim>\<open>UNIQUE(osm_type, osm_id)\<close> on courses and \<^verbatim>\<open>UNIQUE(round_id, hole_number)\<close> on
  holes, as predicates on the tables.
\<close>

definition course_key :: "course \<Rightarrow> string \<times> int" where
  "course_key r = (osm_type r, osm_id r)"

definition unique_courses :: "database \<Rightarrow> bool" where
  "unique_courses d = distinct (map course_key (courses d))"

definition hole_key :: "hole \<Rightarrow> int \<times> int" where
  "hole_key r = (round_id r, hole_number r)"

definition unique_holes :: "database \<Rightarrow> bool" where
  "unique_holes d = distinct (map hole_key (holes d))"

subsection \<open>Notions used in the statements\<close>

text \<open>
  The name under which the loop of \<open>upsert_courses\<close> stores an element; the loop skips
  the element exactly when this is empty.
\<close>

definition el_name :: "element \<Rightarrow> string" where
  "el_name el = or_empty (get (or_empty_dict (el_tags el)) ''name'')"

text \<open>The DO UPDATE of the loop for one element, and a row with its timestamp blanked.\<close>

definition el_update :: "element \<Rightarrow> int \<Rightarrow> course \<Rightarrow> course" where
  "el_update el ts r =
     do_update_course (el_name el) (fst (element_center_lat_lon el))
       (snd (element_center_lat_lon el)) (normalize_access (or_empty_dict (el_tags el)))
       (or_empty_dict (el_tags el)) ts r"

definition without_updated_at :: "course \<Rightarrow> course" where
  "without_updated_at r = r\<lparr>updated_at_utc := 0\<rparr>"

text \<open>
  \<open>el_hits k el\<close>: the loop stores \<open>el\<close>, and under the key \<open>k\<close>. \<open>last_write k els\<close> is
  the last element of \<open>els\<close> that does.
\<close>

definition el_hits :: "string \<times> int \<Rightarrow> element \<Rightarrow> bool" where
  "el_hits k el = (el_name el \<noteq> [] \<and> el_type el = Some (fst k) \<and> el_id el = Some (snd k))"

fun last_write :: "string \<times> int \<Rightarrow> element list \<Rightarrow> element option" where
  "last_write k [] = None"
| "last_write k (el # els) =
     (case last_write k els of
        Some e \<Rightarrow> Some e
      | None \<Rightarrow> if el_hits k el then Some el else None)"

section \<open>Properties\<close>

lemmas str_defs = get_def or_empty_def strip_def lower_def lower_char_def isspace_def

lemmas bind_defs = sqlite_int_def sqlite_int_opt_def

subsection \<open>Access labels\<close>

lemma access_label_closed:
  "access_label a \<in> {''Private'', ''Public/Playable'', ''Unknown''}"
  by (simp add: access_label_def Let_def)

text \<open>
  C2, as stated, fails: for the tags \<^verbatim>\<open>{access: "yes"}\<close> \<open>normalize_access\<close> returns the
  tag's own value \<^verbatim>\<open>yes\<close>, which is none of private, public and unknown.
\<close>

theorem normalize_access_not_closed:
  "normalize_access [(''access'', ''yes'')] \<notin> {''private'', ''public'', ''unknown''}"
  by (simp add: normalize_access_def str_defs)

text \<open>
  C2, amended: for every tags mapping \<open>normalize_access\<close> returns the access tag,
  stripped and lower-cased, when that is not empty; otherwise it returns private
  exactly when the membership tag, stripped and lower-cased, is yes or required, and
  unknown in every other case. The result is never empty. The three-way label is
  computed from the stored value when the courses are listed (\<open>access_label\<close>).
  \<^verbatim>\<open>{access: "private"}\<close> gives private, \<^verbatim>\<open>{access: "yes"}\<close> gives yes (listed as
  Public/Playable), \<^verbatim>\<open>{access: "permissive"}\<close> gives permissive,
  \<^verbatim>\<open>{membership: "required"}\<close> and \<^verbatim>\<open>{membership: "yes"}\<close> give private, and the empty
  mapping gives unknown.
\<close>

theorem normalize_access_cascade:
  "(lower (strip (or_empty (get tags ''access''))) \<noteq> [] \<longrightarrow>
      normalize_access tags = lower (strip (or_empty (get tags ''access''))))
   \<and> (lower (strip (or_empty (get tags ''access''))) = []
        \<and> lower (strip (or_empty (get tags ''membership''))) \<in> {''yes'', ''required''} \<longrightarrow>
      normalize_access tags = ''private'')
   \<and> (lower (strip (or_empty (get tags ''access''))) = []
        \<and> lower (strip (or_empty (get tags ''membership''))) \<notin> {''yes'', ''required''} \<longrightarrow>
      normalize_access tags = ''unknown'')
   \<and> normalize_access tags
         \<in> {lower (strip (or_empty (get tags ''access''))), ''private'', ''unknown''}
   \<and> normalize_access tags \<noteq> []
   \<and> (normalize_access tags \<in> {''private'', ''unknown''}
        \<or> normalize_access tags = lower (strip (or_empty (get tags ''access''))))
   \<and> access_label (Some (normalize_access tags))
         \<in> {''Private'', ''Public/Playable'', ''Unknown''}
   \<and> normalize_access [(''access'', ''private'')] = ''private''
   \<and> normalize_access [(''access'', ''yes'')] = ''yes''
   \<and> access_label (Some (normalize_access [(''access'', ''yes'')])) = ''Public/Playable''
   \<and> normalize_access [(''access'', ''permissive'')] = ''permissive''
   \<and> normalize_access [(''membership'', ''required'')] = ''private''
   \<and> normalize_access [(''membership'', ''yes'')] = ''private''
   \<and> normalize_access [] = ''unknown''"
proof -
  have c1: "lower (strip (or_empty (get tags ''access''))) \<noteq> [] \<longrightarrow>
      normalize_access tags = lower (strip (or_empty (get tags ''access'')))"
    by (simp add: normalize_access_def Let_def)
  have c2: "lower (strip (or_empty (get tags ''access''))) = []
        \<and> lower (strip (or_empty (get tags ''membership''))) \<in> {''yes'', ''required''} \<longrightarrow>
      normalize_access tags = ''private''"
    by (simp add: normalize_access_def Let_def)
  have c3: "lower (strip (or_empty (get tags ''access''))) = []
        \<and> lower (strip (or_empty (get tags ''membership''))) \<notin> {''yes'', ''required''} \<longrightarrow>
      normalize_access tags = ''unknown''"
    by (simp add: normalize_access_def Let_def)
  have a: "normalize_access tags
     \<in> {lower (strip (or_empty (get tags ''access''))), ''private'', ''unknown''}"
    by (simp add: normalize_access_def Let_def)
  have b: "normalize_access tags \<noteq> []"
    by (simp add: normalize_access_def Let_def)
  have c: "normalize_access [(''access'', ''private'')] = ''private''"
    by (simp add: normalize_access_def str_defs)
  have d: "normalize_access [(''access'', ''yes'')] = ''yes''"
    by (simp add: normalize_access_def str_defs)
  have e: "access_label (Some ''yes'') = ''Public/Playable''"
    by (simp add: access_label_def str_defs)
  have p: "normalize_access [(''access'', ''permissive'')] = ''permissive''"
    by (simp add: normalize_access_def str_defs)
  have f: "normalize_access [(''membership'', ''required'')] = ''private''"
    by (simp add: normalize_access_def str_defs)
  have y: "normalize_access [(''membership'', ''yes'')] = ''private''"
    by (simp add: normalize_access_def str_defs)
  have g: "normalize_access [] = ''unknown''"
    by (simp add: normalize_access_def str_defs)
  have l: "access_label (Some (normalize_access tags))
         \<in> {''Private'', ''Public/Playable'', ''Unknown''}"
    by (rule access_label_closed)
  have o: "normalize_access tags \<in> {''private'', ''unknown''}
        \<or> normalize_access tags = lower (strip (or_empty (get tags ''access'')))"
    using a by blast
  from d e have e': "access_label (Some (normalize_access [(''access'', ''yes'')]))
                      = ''Public/Playable''"
    by simp
  show ?thesis
    by (intro conjI c1 c2 c3 a b o l c d e' p f y g)
qed

theorem normalize_access_cascade_witness:
  "normalize_access [(''access'', '' Customers ''), (''membership'', ''yes'')] = ''customers''
   \<and> normalize_access [(''access'', ''  ''), (''membership'', '' YES '')] = ''private''
   \<and> normalize_access [(''access'', ''  ''), (''membership'', ''no'')] = ''unknown''"
proof -
  have a1: "lower (strip (or_empty (get [(''access'', '' Customers ''), (''membership'', ''yes'')]
          ''access''))) = ''customers''"
    by code_simp
  have a2: "lower (strip (or_empty (get [(''access'', ''  ''), (''membership'', '' YES '')]
          ''access''))) = []"
    by code_simp
  have m2: "lower (strip (or_empty (get [(''access'', ''  ''), (''membership'', '' YES '')]
          ''membership''))) = ''yes''"
    by code_simp
  have a3: "lower (strip (or_empty (get [(''access'', ''  ''), (''membership'', ''no'')]
          ''access''))) = []"
    by code_simp
  have m3: "lower (strip (or_empty (get [(''access'', ''  ''), (''membership'', ''no'')]
          ''membership''))) = ''no''"
    by code_simp
  from normalize_access_cascade [of "[(''access'', '' Customers ''), (''membership'', ''yes'')]"] a1
  have r1: "normalize_access [(''access'', '' Customers ''), (''membership'', ''yes'')]
              = ''customers''"
    by simp
  from normalize_access_cascade [of "[(''access'', ''  ''), (''membership'', '' YES '')]"] a2 m2
  have r2: "normalize_access [(''access'', ''  ''), (''membership'', '' YES '')] = ''private''"
    by simp
  from normalize_access_cascade [of "[(''access'', ''  ''), (''membership'', ''no'')]"] a3 m3
  have r3: "normalize_access [(''access'', ''  ''), (''membership'', ''no'')] = ''unknown''"
    by simp
  from r1 r2 r3 show ?thesis by simp
qed

subsection \<open>Rounds\<close>

text \<open>
  C1: \<open>create_round\<close> on a database with no course at all, for the course id 999. The
  connection does not enforce the FOREIGN KEY clause of the rounds table, so the call
  returns the new round id 1 and the round row is stored with \<open>course_id = 999\<close>.
\<close>

theorem create_round_missing_course:
  "create_round 1700000000000000 999 ''2024-05-01'' [] [] (init_db None) =
     Inr (1, \<lparr>courses = [], courses_seq = 0,
               rounds = [\<lparr>rounds_id = 1, played_on = ''2024-05-01'', course_id = 999,
                          tees = None, round_notes = None,
                          created_at_utc = 1700000000\<rparr>],
               rounds_seq = 1, holes = [], holes_seq = 0\<rparr>)"
  by (simp add: create_round_def db_def init_db_def sqlite_int_def or_None_def utc_now_iso_def)

subsection \<open>Holes\<close>

lemma small_sqlite_int: "1 \<le> i \<Longrightarrow> i \<le> 25 \<Longrightarrow> sqlite_int i"
  by (simp add: sqlite_int_def)

lemma upsert_hole_Inr:
  "upsert_hole rid h s p pen comment d = Inr d' \<longleftrightarrow>
     (sqlite_int rid \<and> sqlite_int_opt p \<and> sqlite_int_opt pen \<and> 1 \<le> h \<and> h \<le> 18
        \<and> 1 \<le> s \<and> s \<le> 25) \<and>
     d' = d\<lparr>holes :=
              (if \<exists>r \<in> set (holes d). same_hole rid h r
               then map (\<lambda>r. if same_hole rid h r
                              then r\<lparr>strokes := s, putts := p, penalties := pen,
                                     hole_comment := or_None comment\<rparr>
                              else r) (holes d)
               else holes d @
                      [\<lparr>holes_id = holes_seq d + 1, round_id = rid, hole_number = h,
                        strokes = s, putts = p, penalties = pen,
                        hole_comment = or_None comment\<rparr>]),
            holes_seq := holes_seq d + 1\<rparr>"
  by (auto simp add: upsert_hole_def db_def Let_def small_sqlite_int sqlite_int_def)

lemma upsert_hole_Inl:
  "s < 1 \<or> 25 < s \<or> h < 1 \<or> 18 < h \<Longrightarrow>
   \<exists>e. upsert_hole rid h s p pen comment d = Inl e
       \<and> (e = OverflowError \<or> (\<exists>m. e = IntegrityError m))"
  by (auto simp add: upsert_hole_def db_def Let_def)

lemma upsert_hole_total:
  assumes "sqlite_int rid" "1 \<le> h" "h \<le> 18" "1 \<le> s" "s \<le> 25"
          "sqlite_int_opt p" "sqlite_int_opt pen"
  shows "\<exists>d'. upsert_hole rid h s p pen comment d = Inr d'"
  using assms by (simp add: upsert_hole_Inr)

lemma upsert_hole_same_rows:
  assumes "upsert_hole rid h s p pen comment d = Inr d'"
  shows "\<exists>r \<in> set (holes d'). same_hole rid h r"
    and "\<forall>r \<in> set (holes d'). same_hole rid h r \<longrightarrow>
           strokes r = s \<and> putts r = p \<and> penalties r = pen
           \<and> hole_comment r = or_None comment"
proof -
  let ?f = "\<lambda>r. if same_hole rid h r
                 then r\<lparr>strokes := s, putts := p, penalties := pen,
                        hole_comment := or_None comment\<rparr>
                 else r"
  show "\<exists>r \<in> set (holes d'). same_hole rid h r"
  proof (cases "\<exists>r \<in> set (holes d). same_hole rid h r")
    case True
    then obtain r where r: "r \<in> set (holes d)" "same_hole rid h r" by blast
    then have "?f r \<in> ?f ` set (holes d)" by (intro imageI)
    then have "?f r \<in> set (map ?f (holes d))" by (simp only: set_map)
    moreover from r have "same_hole rid h (?f r)" by (simp add: same_hole_def)
    moreover from assms True have "holes d' = map ?f (holes d)"
      by (simp add: upsert_hole_Inr)
    ultimately show ?thesis by (simp only:) blast
  next
    case False
    with assms have "holes d' = holes d @
        [\<lparr>holes_id = holes_seq d + 1, round_id = rid, hole_number = h, strokes = s,
          putts = p, penalties = pen, hole_comment = or_None comment\<rparr>]"
      by (simp add: upsert_hole_Inr)
    then show ?thesis by (simp add: same_hole_def)
  qed
  show "\<forall>r \<in> set (holes d'). same_hole rid h r \<longrightarrow>
           strokes r = s \<and> putts r = p \<and> penalties r = pen
           \<and> hole_comment r = or_None comment"
    using assms by (auto simp add: upsert_hole_Inr same_hole_def split: if_splits)
qed

lemma upsert_hole_other_rows:
  assumes "upsert_hole rid h s p pen comment d = Inr d'" and "(rid', h') \<noteq> (rid, h)"
  shows "filter (same_hole rid' h') (holes d') = filter (same_hole rid' h') (holes d)"
proof -
  have "filter (same_hole rid' h')
          (map (\<lambda>r. if same_hole rid h r
                     then r\<lparr>strokes := s, putts := p, penalties := pen,
                            hole_comment := or_None comment\<rparr>
                     else r) xs) = filter (same_hole rid' h') xs" for xs
    using assms(2) by (induction xs) (auto simp add: same_hole_def)
  with assms show ?thesis
    by (auto simp add: upsert_hole_Inr same_hole_def split: if_splits)
qed

lemma upsert_hole_keys:
  assumes "upsert_hole rid h s p pen comment d = Inr d'"
  shows "map hole_key (holes d') =
           (if (rid, h) \<in> set (map hole_key (holes d)) then map hole_key (holes d)
            else map hole_key (holes d) @ [(rid, h)])"
proof -
  have same: "(\<exists>r \<in> set (holes d). same_hole rid h r) \<longleftrightarrow> (rid, h) \<in> set (map hole_key (holes d))"
    by (auto simp add: same_hole_def hole_key_def image_iff)
  have "map hole_key
          (map (\<lambda>r. if same_hole rid h r
                     then r\<lparr>strokes := s, putts := p, penalties := pen,
                            hole_comment := or_None comment\<rparr>
                     else r) xs) = map hole_key xs" for xs
    by (induction xs) (auto simp add: hole_key_def)
  with assms same show ?thesis
    by (auto simp add: upsert_hole_Inr hole_key_def split: if_splits)
qed

lemma upsert_hole_unique:
  "upsert_hole rid h s p pen comment d = Inr d' \<Longrightarrow> unique_holes d \<Longrightarrow> unique_holes d'"
  by (simp add: unique_holes_def upsert_hole_keys)

lemma unique_holes_one_row:
  assumes "unique_holes d" and "r \<in> set (holes d)" and "same_hole rid h r"
  shows "filter (same_hole rid h) (holes d) = [r]"
proof -
  have "distinct (map hole_key xs) \<Longrightarrow> r \<in> set xs \<Longrightarrow> filter (same_hole rid h) xs = [r]" for xs
  proof (induction xs)
    case Nil
    then show ?case by simp
  next
    case (Cons x xs)
    have none: "hole_key r \<notin> set (map hole_key ys) \<Longrightarrow> filter (same_hole rid h) ys = []" for ys
      using assms(3) by (induction ys) (auto simp add: same_hole_def hole_key_def)
    show ?case
    proof (cases "x = r")
      case True
      with Cons.prems assms(3) none [of xs] show ?thesis by simp
    next
      case False
      with Cons.prems have "r \<in> set xs" by simp
      then have "hole_key r \<in> set (map hole_key xs)" by simp
      with Cons.prems have "hole_key x \<noteq> hole_key r" by auto
      with assms(3) have "\<not> same_hole rid h x" by (auto simp add: same_hole_def hole_key_def)
      with Cons \<open>r \<in> set xs\<close> show ?thesis by simp
    qed
  qed
  with assms show ?thesis by (simp add: unique_holes_def)
qed

lemma save_holes_other_rows:
  "save_holes rid hole_data d = (e, d') \<Longrightarrow> h \<notin> fst ` set hole_data \<Longrightarrow>
   filter (same_hole rid h) (holes d') = filter (same_hole rid h) (holes d)"
proof (induction hole_data arbitrary: d)
  case Nil
  then show ?case by simp
next
  case (Cons entry hole_data)
  obtain h0 s0 p0 pen0 c0 where entry: "entry = (h0, s0, p0, pen0, c0)"
    by (cases entry) auto
  show ?case
  proof (cases "save_hole rid entry d")
    case (Inl err)
    with Cons.prems show ?thesis by simp
  next
    case (Inr d1)
    with Cons.prems have rest: "save_holes rid hole_data d1 = (e, d')" by simp
    from Cons.prems entry have "(rid, h) \<noteq> (rid, h0)" by auto
    with Inr entry have "filter (same_hole rid h) (holes d1) = filter (same_hole rid h) (holes d)"
      by (simp add: save_hole_def upsert_hole_other_rows)
    with Cons.IH [OF rest] Cons.prems show ?thesis by simp
  qed
qed

lemma save_holes_rows:
  "save_holes rid hole_data d = (None, d') \<Longrightarrow> distinct (map fst hole_data) \<Longrightarrow>
   (h, s, p, pen, c) \<in> set hole_data \<Longrightarrow>
   (\<exists>r \<in> set (holes d'). same_hole rid h r) \<and>
   (\<forall>r \<in> set (holes d'). same_hole rid h r \<longrightarrow>
      strokes r = s \<and> putts r = (if p > 0 then Some p else None)
      \<and> penalties r = (if pen > 0 then Some pen else None) \<and> hole_comment r = or_None c)"
proof (induction hole_data arbitrary: d)
  case Nil
  then show ?case by simp
next
  case (Cons entry hole_data)
  show ?case
  proof (cases "save_hole rid entry d")
    case (Inl err)
    with Cons.prems show ?thesis by simp
  next
    case (Inr d1)
    with Cons.prems have rest: "save_holes rid hole_data d1 = (None, d')" by simp
    show ?thesis
    proof (cases "entry = (h, s, p, pen, c)")
      case True
      with Inr have up: "upsert_hole rid h s (if p > 0 then Some p else None)
                           (if pen > 0 then Some pen else None) c d = Inr d1"
        by (simp add: save_hole_def)
      from True Cons.prems have "h \<notin> fst ` set hole_data" by auto
      from save_holes_other_rows [OF rest this]
      have "set (filter (same_hole rid h) (holes d')) = set (filter (same_hole rid h) (holes d1))"
        by simp
      then have eq: "\<And>r. (r \<in> set (holes d') \<and> same_hole rid h r)
                       = (r \<in> set (holes d1) \<and> same_hole rid h r)"
        by auto
      from upsert_hole_same_rows [OF up] eq show ?thesis by blast
    next
      case False
      with Cons.prems have "(h, s, p, pen, c) \<in> set hole_data" by simp
      moreover from Cons.prems have "distinct (map fst hole_data)" by simp
      ultimately show ?thesis using Cons.IH [OF rest] by blast
    qed
  qed
qed

text \<open>
  C3, as stated, fails: \<open>upsert_hole\<close> called with putts and penalties zero stores the
  two zeros.
\<close>

theorem upsert_hole_keeps_zero:
  "upsert_hole 1 1 4 (Some 0) (Some 0) [] (init_db None) =
     Inr \<lparr>courses = [], courses_seq = 0, rounds = [], rounds_seq = 0,
          holes = [\<lparr>holes_id = 1, round_id = 1, hole_number = 1, strokes = 4,
                    putts = Some 0, penalties = Some 0, hole_comment = None\<rparr>],
          holes_seq = 1\<rparr>"
  by (simp add: upsert_hole_def db_def init_db_def bind_defs or_None_def)


text \<open>
  C3, amended: the save branch of \<open>main\<close> passes a putts or penalties entry of zero to
  \<open>upsert_hole\<close> as None, so every hole saved through it has that field NULL when the
  entry was zero and the entered value when it was positive; \<open>upsert_hole\<close> itself
  stores the putts and penalties it is given, whatever they are.
\<close>

theorem save_path_drops_zero:
  "(save_holes rid hole_data d = (None, d') \<and> distinct (map fst hole_data)
      \<and> (h, s, p, pen, c) \<in> set hole_data \<longrightarrow>
      (\<exists>r \<in> set (holes d'). same_hole rid h r) \<and>
      (\<forall>r \<in> set (holes d'). same_hole rid h r \<longrightarrow>
         (p = 0 \<longrightarrow> putts r = None) \<and> (pen = 0 \<longrightarrow> penalties r = None)
         \<and> (0 < p \<longrightarrow> putts r = Some p) \<and> (0 < pen \<longrightarrow> penalties r = Some pen)))
   \<and> (upsert_hole rid h s p' pen' c d = Inr d'' \<longrightarrow>
      (\<exists>r \<in> set (holes d''). same_hole rid h r) \<and>
      (\<forall>r \<in> set (holes d''). same_hole rid h r \<longrightarrow> putts r = p' \<and> penalties r = pen'))"
proof -
  have a: "save_holes rid hole_data d = (None, d') \<and> distinct (map fst hole_data)
      \<and> (h, s, p, pen, c) \<in> set hole_data \<longrightarrow>
      (\<exists>r \<in> set (holes d'). same_hole rid h r) \<and>
      (\<forall>r \<in> set (holes d'). same_hole rid h r \<longrightarrow>
         (p = 0 \<longrightarrow> putts r = None) \<and> (pen = 0 \<longrightarrow> penalties r = None)
         \<and> (0 < p \<longrightarrow> putts r = Some p) \<and> (0 < pen \<longrightarrow> penalties r = Some pen))"
    using save_holes_rows [of rid hole_data d d' h s p pen c] by auto
  have b: "upsert_hole rid h s p' pen' c d = Inr d'' \<longrightarrow>
      (\<exists>r \<in> set (holes d''). same_hole rid h r) \<and>
      (\<forall>r \<in> set (holes d''). same_hole rid h r \<longrightarrow> putts r = p' \<and> penalties r = pen')"
    using upsert_hole_same_rows [of rid h s p' pen' c d d''] by blast
  from a b show ?thesis by blast
qed

theorem save_path_drops_zero_witness:
  "\<exists>d'. save_holes 1 [(1, 4, 0, 2, []), (2, 5, 3, 0, ''x'')] (init_db None) = (None, d')
      \<and> (\<exists>r \<in> set (holes d'). same_hole 1 1 r)
      \<and> (\<forall>r \<in> set (holes d'). same_hole 1 1 r \<longrightarrow> putts r = None \<and> penalties r = Some 2)"
proof -
  obtain d' where run: "save_holes 1 [(1, 4, 0, 2, []), (2, 5, 3, 0, ''x'')] (init_db None) = (None, d')"
    by (simp add: save_hole_def upsert_hole_def db_def init_db_def bind_defs same_hole_def)
  have "distinct (map fst [(1::int, 4::int, 0::int, 2::int, []), (2, 5, 3, 0, ''x'')])"
    by simp
  moreover have "(1::int, 4::int, 0::int, 2::int, [])
                   \<in> set [(1, 4, 0, 2, []), (2, 5, 3, 0, ''x'')]"
    by simp
  ultimately show ?thesis
    using run save_path_drops_zero
                [of 1 "[(1, 4, 0, 2, []), (2, 5, 3, 0, ''x'')]" "init_db None" d' 1 4 0 2 "[]"]
    by simp
qed

text \<open>
  C7: \<open>upsert_hole\<close> with strokes outside 1..25 or a hole number outside 1..18 fails,
  whatever the other arguments and the database are, and stores nothing: the error is
  the IntegrityError of the CHECK constraint when every integer fits in 64 bits and
  the OverflowError of the binding otherwise, and the save loop of \<open>main\<close> stops at
  such an entry with the database as it was.
\<close>

theorem upsert_hole_rejects_out_of_range:
  assumes "s < 1 \<or> 25 < s \<or> h < 1 \<or> 18 < h"
  shows "(\<exists>e. upsert_hole rid h s p pen comment d = Inl e
              \<and> (e = OverflowError \<or> (\<exists>m. e = IntegrityError m)))
       \<and> (sqlite_int rid \<and> sqlite_int h \<and> sqlite_int s \<and> sqlite_int_opt p
             \<and> sqlite_int_opt pen
           \<longrightarrow> (\<exists>m. upsert_hole rid h s p pen comment d = Inl (IntegrityError m)))
       \<and> (\<exists>e. save_holes rid ((h, s, p0, pen0, comment) # hole_data) d = (Some e, d))"
proof -
  have a: "\<exists>e. upsert_hole rid h s p pen comment d = Inl e
              \<and> (e = OverflowError \<or> (\<exists>m. e = IntegrityError m))"
    using assms by (rule upsert_hole_Inl)
  have b: "sqlite_int rid \<and> sqlite_int h \<and> sqlite_int s \<and> sqlite_int_opt p
             \<and> sqlite_int_opt pen
           \<longrightarrow> (\<exists>m. upsert_hole rid h s p pen comment d = Inl (IntegrityError m))"
    using assms by (auto simp add: upsert_hole_def db_def Let_def)
  from upsert_hole_Inl [OF assms, of rid "if p0 > 0 then Some p0 else None"
         "if pen0 > 0 then Some pen0 else None" comment d]
  obtain e where "save_hole rid (h, s, p0, pen0, comment) d = Inl e"
    unfolding save_hole_def by auto
  then have c: "\<exists>e. save_holes rid ((h, s, p0, pen0, comment) # hole_data) d = (Some e, d)"
    by simp
  from a b c show ?thesis by blast
qed

theorem upsert_hole_rejects_out_of_range_witness:
  "\<exists>m. upsert_hole 1 5 26 (Some 2) None ''x'' (init_db None) = Inl (IntegrityError m)"
proof -
  have "(26::int) < 1 \<or> (25::int) < 26 \<or> (5::int) < 1 \<or> (18::int) < 5" by simp
  from upsert_hole_rejects_out_of_range [OF this, of 1 "Some 2" None "''x''" "init_db None"]
  show ?thesis by (simp add: bind_defs)
qed

text \<open>
  C8: on a holes table that meets its UNIQUE constraint, two calls of \<open>upsert_hole\<close>
  for the same round and hole, each with strokes in 1..25 and bindable arguments, both
  succeed and leave exactly one row for that key, which carries the strokes, putts,
  penalties and comment of the second call.
\<close>

theorem upsert_hole_last_write_wins:
  assumes "unique_holes d" and "sqlite_int rid" and "1 \<le> h" and "h \<le> 18"
    and "1 \<le> s1" and "s1 \<le> 25" and "sqlite_int_opt p1" and "sqlite_int_opt pen1"
    and "1 \<le> s2" and "s2 \<le> 25" and "sqlite_int_opt p2" and "sqlite_int_opt pen2"
  shows "\<exists>d1 d2 r. upsert_hole rid h s1 p1 pen1 c1 d = Inr d1
           \<and> upsert_hole rid h s2 p2 pen2 c2 d1 = Inr d2
           \<and> filter (same_hole rid h) (holes d2) = [r]
           \<and> strokes r = s2 \<and> putts r = p2 \<and> penalties r = pen2
           \<and> hole_comment r = (if c2 = [] then None else Some c2)
           \<and> unique_holes d2"
proof -
  from assms obtain d1 where d1: "upsert_hole rid h s1 p1 pen1 c1 d = Inr d1"
    using upsert_hole_total [of rid h s1 p1 pen1 c1 d] by blast
  from assms obtain d2 where d2: "upsert_hole rid h s2 p2 pen2 c2 d1 = Inr d2"
    using upsert_hole_total [of rid h s2 p2 pen2 c2 d1] by blast
  from assms(1) d1 d2 have u: "unique_holes d2"
    by (blast intro: upsert_hole_unique)
  from upsert_hole_same_rows(1) [OF d2]
  obtain r where r: "r \<in> set (holes d2)" "same_hole rid h r" by blast
  from unique_holes_one_row [OF u r] have one: "filter (same_hole rid h) (holes d2) = [r]" .
  from upsert_hole_same_rows(2) [OF d2] r
  have "strokes r = s2 \<and> putts r = p2 \<and> penalties r = pen2 \<and> hole_comment r = or_None c2"
    by blast
  with d1 d2 one u show ?thesis by (auto simp add: or_None_def)
qed

theorem upsert_hole_last_write_wins_witness:
  "\<exists>d1 d2 r. upsert_hole 1 5 4 (Some 2) None ''first'' (init_db None) = Inr d1
      \<and> upsert_hole 1 5 6 None (Some 1) [] d1 = Inr d2
      \<and> filter (same_hole 1 5) (holes d2) = [r]
      \<and> strokes r = 6 \<and> putts r = None \<and> penalties r = Some 1 \<and> hole_comment r = None
      \<and> unique_holes d2"
proof -
  have "unique_holes (init_db None)"
    by (simp add: unique_holes_def init_db_def)
  from upsert_hole_last_write_wins
         [OF this, of 1 5 4 "Some 2" None 6 None "Some 1" "''first''" "[]"]
  show ?thesis by (simp add: bind_defs)
qed

text \<open>
  C10: an empty \<open>tees\<close> or \<open>notes\<close> argument of \<open>create_round\<close>, and an empty comment
  of \<open>upsert_hole\<close>, is stored as NULL, and a non-empty string is stored as it is. The
  calls succeed for every argument that SQLite can bind and that meets the CHECK
  constraints.
\<close>

theorem empty_strings_stored_as_null:
  "(sqlite_int cid \<longrightarrow>
      create_round now cid played tee notes d =
        Inr (rounds_seq d + 1,
             d\<lparr>rounds := rounds d @
                  [\<lparr>rounds_id = rounds_seq d + 1, played_on = played, course_id = cid,
                    tees = (if tee = [] then None else Some tee),
                    round_notes = (if notes = [] then None else Some notes),
                    created_at_utc = utc_now_iso now\<rparr>],
               rounds_seq := rounds_seq d + 1\<rparr>))
   \<and> (sqlite_int rid \<and> 1 \<le> h \<and> h \<le> 18 \<and> 1 \<le> s \<and> s \<le> 25
         \<and> sqlite_int_opt p \<and> sqlite_int_opt pen \<longrightarrow>
      (\<exists>d'. upsert_hole rid h s p pen comment d = Inr d'
          \<and> (\<exists>r \<in> set (holes d'). same_hole rid h r)
          \<and> (\<forall>r \<in> set (holes d'). same_hole rid h r \<longrightarrow>
                hole_comment r = (if comment = [] then None else Some comment))))"
proof -
  have a: "sqlite_int cid \<longrightarrow>
      create_round now cid played tee notes d =
        Inr (rounds_seq d + 1,
             d\<lparr>rounds := rounds d @
                  [\<lparr>rounds_id = rounds_seq d + 1, played_on = played, course_id = cid,
                    tees = (if tee = [] then None else Some tee),
                    round_notes = (if notes = [] then None else Some notes),
                    created_at_utc = utc_now_iso now\<rparr>],
               rounds_seq := rounds_seq d + 1\<rparr>)"
    by (simp add: create_round_def db_def Let_def or_None_def)
  have b: "sqlite_int rid \<and> 1 \<le> h \<and> h \<le> 18 \<and> 1 \<le> s \<and> s \<le> 25
         \<and> sqlite_int_opt p \<and> sqlite_int_opt pen \<longrightarrow>
      (\<exists>d'. upsert_hole rid h s p pen comment d = Inr d'
          \<and> (\<exists>r \<in> set (holes d'). same_hole rid h r)
          \<and> (\<forall>r \<in> set (holes d'). same_hole rid h r \<longrightarrow>
                hole_comment r = (if comment = [] then None else Some comment)))"
  proof
    assume ok: "sqlite_int rid \<and> 1 \<le> h \<and> h \<le> 18 \<and> 1 \<le> s \<and> s \<le> 25
         \<and> sqlite_int_opt p \<and> sqlite_int_opt pen"
    then obtain d' where d': "upsert_hole rid h s p pen comment d = Inr d'"
      using upsert_hole_total [of rid h s p pen comment d] by blast
    from upsert_hole_same_rows [OF d'] d' show "\<exists>d'. upsert_hole rid h s p pen comment d = Inr d'
          \<and> (\<exists>r \<in> set (holes d'). same_hole rid h r)
          \<and> (\<forall>r \<in> set (holes d'). same_hole rid h r \<longrightarrow>
                hole_comment r = (if comment = [] then None else Some comment))"
      by (auto simp add: or_None_def)
  qed
  from a b show ?thesis by blast
qed

theorem empty_strings_stored_as_null_witness:
  "create_round 1700000000000000 3 ''2024-05-01'' [] ''windy'' (init_db None) =
     Inr (1, \<lparr>courses = [], courses_seq = 0,
               rounds = [\<lparr>rounds_id = 1, played_on = ''2024-05-01'', course_id = 3,
                          tees = None, round_notes = Some ''windy'',
                          created_at_utc = 1700000000\<rparr>],
               rounds_seq = 1, holes = [], holes_seq = 0\<rparr>)
   \<and> (\<exists>d'. upsert_hole 1 5 4 None None [] (init_db None) = Inr d'
        \<and> (\<exists>r \<in> set (holes d'). same_hole 1 5 r)
        \<and> (\<forall>r \<in> set (holes d'). same_hole 1 5 r \<longrightarrow> hole_comment r = None))"
  using empty_strings_stored_as_null
          [of 3 1700000000000000 "''2024-05-01''" "[]" "''windy''" "init_db None" 1 5 4 None None "[]"]
  by (simp add: bind_defs init_db_def utc_now_iso_def)

subsection \<open>The cache gate\<close>

lemma age_sec_less:
  "age_sec now T < real_of_int COURSE_CACHE_TTL_SEC
     \<longleftrightarrow> now < (T + COURSE_CACHE_TTL_SEC) * 1000000"
proof -
  have "age_sec now T < real_of_int COURSE_CACHE_TTL_SEC
          \<longleftrightarrow> real_of_int (now - T * 1000000) < real_of_int (COURSE_CACHE_TTL_SEC * 1000000)"
    by (simp add: age_sec_def field_simps)
  also have "\<dots> \<longleftrightarrow> now - T * 1000000 < COURSE_CACHE_TTL_SEC * 1000000"
    by (simp only: of_int_less_iff)
  also have "\<dots> \<longleftrightarrow> now < (T + COURSE_CACHE_TTL_SEC) * 1000000"
    by (simp add: algebra_simps)
  finally show ?thesis .
qed

text \<open>
  C4: a call of \<open>maybe_refresh_courses\<close> without \<open>force\<close> on a non-empty course table
  whose latest \<open>updated_at_utc\<close> is \<open>T\<close>. Before \<open>T\<close> + TTL (in microseconds of the
  clock) the result is the cache-hit status and the database as it was, whatever the
  service would have answered; from \<open>T\<close> + TTL on the result is that of the refresh:
  the service's error, or the outcome of \<open>upsert_courses\<close> on its elements.
\<close>

theorem ttl_gate:
  assumes "courses d \<noteq> []" and "T = Max (set (map updated_at_utc (courses d)))"
  shows "(now < (T + COURSE_CACHE_TTL_SEC) * 1000000 \<longrightarrow>
            maybe_refresh_courses service now clock la lo radius_m False d
              = Inr (Using_cached T, d))
       \<and> ((T + COURSE_CACHE_TTL_SEC) * 1000000 \<le> now \<longrightarrow>
            maybe_refresh_courses service now clock la lo radius_m False d
              = (case service la lo radius_m of
                   Inl e \<Rightarrow> Inl e
                 | Inr data \<Rightarrow>
                     (case upsert_courses clock
                             (case data of None \<Rightarrow> [] | Some elements \<Rightarrow> elements) d of
                        Inl e \<Rightarrow> Inl e
                      | Inr (count, d') \<Rightarrow> Inr (Refreshed count, d'))))"
proof -
  from assms have last: "courses_last_updated d = Some T"
    by (simp add: courses_last_updated_def)
  show ?thesis
    by (auto simp add: maybe_refresh_courses_def last age_sec_less fetch_courses_overpass_def
             split: sum.splits)
qed

theorem ttl_gate_witness:
  "maybe_refresh_courses (\<lambda>la lo r. Inl (RequestError ''timeout'')) 605799999999 (\<lambda>k. 0)
       39.9526 (-75.1652) 48280 False
       \<lparr>courses = [\<lparr>courses_id = 1, osm_type = ''way'', osm_id = 7, name = ''Cobbs Creek'',
                    lat = None, lon = None, access = Some ''yes'', raw_tags_json = Some [],
                    updated_at_utc = 1000\<rparr>],
        courses_seq = 1, rounds = [], rounds_seq = 0, holes = [], holes_seq = 0\<rparr>
     = Inr (Using_cached 1000,
       \<lparr>courses = [\<lparr>courses_id = 1, osm_type = ''way'', osm_id = 7, name = ''Cobbs Creek'',
                    lat = None, lon = None, access = Some ''yes'', raw_tags_json = Some [],
                    updated_at_utc = 1000\<rparr>],
        courses_seq = 1, rounds = [], rounds_seq = 0, holes = [], holes_seq = 0\<rparr>)
   \<and> maybe_refresh_courses (\<lambda>la lo r. Inl (RequestError ''timeout'')) 605800000000 (\<lambda>k. 0)
       39.9526 (-75.1652) 48280 False
       \<lparr>courses = [\<lparr>courses_id = 1, osm_type = ''way'', osm_id = 7, name = ''Cobbs Creek'',
                    lat = None, lon = None, access = Some ''yes'', raw_tags_json = Some [],
                    updated_at_utc = 1000\<rparr>],
        courses_seq = 1, rounds = [], rounds_seq = 0, holes = [], holes_seq = 0\<rparr>
     = Inl (RequestError ''timeout'')"
  using ttl_gate [of "\<lparr>courses = [\<lparr>courses_id = 1, osm_type = ''way'', osm_id = 7,
                      name = ''Cobbs Creek'', lat = None, lon = None, access = Some ''yes'',
                      raw_tags_json = Some [], updated_at_utc = 1000\<rparr>],
                    courses_seq = 1, rounds = [], rounds_seq = 0, holes = [], holes_seq = 0\<rparr>"
                1000 605799999999 "\<lambda>la lo r. Inl (RequestError ''timeout'')" "\<lambda>k. 0"
                "39.9526" "-75.1652" 48280]
        ttl_gate [of "\<lparr>courses = [\<lparr>courses_id = 1, osm_type = ''way'', osm_id = 7,
                      name = ''Cobbs Creek'', lat = None, lon = None, access = Some ''yes'',
                      raw_tags_json = Some [], updated_at_utc = 1000\<rparr>],
                    courses_seq = 1, rounds = [], rounds_seq = 0, holes = [], holes_seq = 0\<rparr>"
                1000 605800000000 "\<lambda>la lo r. Inl (RequestError ''timeout'')" "\<lambda>k. 0"
                "39.9526" "-75.1652" 48280]
  by (simp add: COURSE_CACHE_TTL_SEC_def)

subsection \<open>The course cache\<close>

lemma upsert_loop_skip:
  "el_name el = [] \<Longrightarrow> upsert_loop clock (el # els) u d = upsert_loop clock els u d"
  by (auto simp add: el_name_def or_empty_def Let_def split: option.splits)

lemma upsert_loop_store:
  "el_name el \<noteq> [] \<Longrightarrow>
   upsert_loop clock (el # els) u d =
     (case el_id el of
        None \<Rightarrow> Inl TypeError
      | Some i \<Rightarrow>
          (case execute_upsert_course (el_type el) i (el_name el)
                  (fst (element_center_lat_lon el)) (snd (element_center_lat_lon el))
                  (normalize_access (or_empty_dict (el_tags el)))
                  (or_empty_dict (el_tags el)) (utc_now_iso (clock u)) d of
             Inl e \<Rightarrow> Inl e
           | Inr d' \<Rightarrow> upsert_loop clock els (u + 1) d'))"
  by (auto simp add: el_name_def or_empty_def Let_def split: option.splits prod.splits)

declare upsert_loop.simps(2) [simp del]

lemma execute_upsert_course_Inr:
  "execute_upsert_course ty i nm la lo acc raw ts d = Inr d' \<longleftrightarrow>
     sqlite_int i \<and>
     (\<exists>t. ty = Some t \<and>
        d' = d\<lparr>courses :=
                 (if \<exists>r \<in> set (courses d). same_course t i r
                  then map (\<lambda>r. if same_course t i r
                                 then do_update_course nm la lo acc raw ts r else r) (courses d)
                  else courses d @
                         [\<lparr>courses_id = courses_seq d + 1, osm_type = t, osm_id = i,
                           name = nm, lat = la, lon = lo, access = Some acc,
                           raw_tags_json = Some raw, updated_at_utc = ts\<rparr>]),
               courses_seq := courses_seq d + 1\<rparr>)"
  by (auto simp add: execute_upsert_course_def Let_def split: option.splits)

lemmas course_defs = upsert_courses_def upsert_loop.simps or_empty_dict_def
  element_center_lat_lon_def normalize_access_def execute_upsert_course_def same_course_def
  do_update_course_def utc_now_iso_def init_db_def sqlite_int_def str_defs

text \<open>
  C9: an element whose tags have no name (no tags at all, no \<^verbatim>\<open>name\<close> key, or an empty
  name) is passed over by \<open>upsert_courses\<close>: a batch that contains it gives the same
  result, count and database or error, as the batch without it, read after read of
  the clock, and the element alone stores nothing.
\<close>

theorem nameless_elements_skipped:
  assumes "get (or_empty_dict (el_tags el)) ''name'' = None
           \<or> get (or_empty_dict (el_tags el)) ''name'' = Some []"
  shows "upsert_courses clock (els1 @ el # els2) d = upsert_courses clock (els1 @ els2) d
       \<and> upsert_courses clock [el] d = Inr (0, d)"
proof -
  from assms have skip: "el_name el = []"
    by (auto simp add: el_name_def or_empty_def)
  have "upsert_loop clock (els1 @ el # els2) u d' = upsert_loop clock (els1 @ els2) u d'" for u d'
  proof (induction els1 arbitrary: u d')
    case Nil
    from skip show ?case by (simp add: upsert_loop_skip)
  next
    case (Cons x els1)
    show ?case
    proof (cases "el_name x = []")
      case True
      with Cons show ?thesis by (simp add: upsert_loop_skip)
    next
      case False
      with Cons show ?thesis
        by (simp add: upsert_loop_store split: option.splits sum.splits)
    qed
  qed
  moreover from skip have "upsert_loop clock [el] 0 d = Inr (0, d)"
    by (simp add: upsert_loop_skip)
  ultimately show ?thesis by (simp add: upsert_courses_def)
qed

theorem nameless_elements_skipped_witness:
  "upsert_courses (\<lambda>k. 1700000000000000)
     [\<lparr>el_type = Some ''way'', el_id = Some 7, el_lat = None, el_lon = None,
        el_center = None, el_tags = Some [(''name'', ''Cobbs Creek'')]\<rparr>,
      \<lparr>el_type = Some ''node'', el_id = Some 8, el_lat = None, el_lon = None,
        el_center = None, el_tags = Some [(''access'', ''private'')]\<rparr>,
      \<lparr>el_type = Some ''way'', el_id = Some 9, el_lat = None, el_lon = None,
        el_center = None, el_tags = Some [(''name'', ''Walnut Lane'')]\<rparr>] (init_db None)
   = upsert_courses (\<lambda>k. 1700000000000000)
     [\<lparr>el_type = Some ''way'', el_id = Some 7, el_lat = None, el_lon = None,
        el_center = None, el_tags = Some [(''name'', ''Cobbs Creek'')]\<rparr>,
      \<lparr>el_type = Some ''way'', el_id = Some 9, el_lat = None, el_lon = None,
        el_center = None, el_tags = Some [(''name'', ''Walnut Lane'')]\<rparr>] (init_db None)
   \<and> upsert_courses (\<lambda>k. 1700000000000000)
       [\<lparr>el_type = Some ''node'', el_id = Some 8, el_lat = None, el_lon = None,
          el_center = None, el_tags = Some [(''access'', ''private'')]\<rparr>] (init_db None)
     = Inr (0, init_db None)"
proof -
  have "get (or_empty_dict (el_tags
          \<lparr>el_type = Some ''node'', el_id = Some 8, el_lat = None, el_lon = None,
            el_center = None, el_tags = Some [(''access'', ''private'')]\<rparr>)) ''name'' = None
        \<or> get (or_empty_dict (el_tags
          \<lparr>el_type = Some ''node'', el_id = Some 8, el_lat = None, el_lon = None,
            el_center = None, el_tags = Some [(''access'', ''private'')]\<rparr>)) ''name'' = Some []"
    by (simp add: get_def or_empty_dict_def)
  from nameless_elements_skipped [OF this,
         of "\<lambda>k. 1700000000000000"
            "[\<lparr>el_type = Some ''way'', el_id = Some 7, el_lat = None, el_lon = None,
               el_center = None, el_tags = Some [(''name'', ''Cobbs Creek'')]\<rparr>]"
            "[\<lparr>el_type = Some ''way'', el_id = Some 9, el_lat = None, el_lon = None,
               el_center = None, el_tags = Some [(''name'', ''Walnut Lane'')]\<rparr>]"
            "init_db None"]
  show ?thesis by simp
qed

lemma same_course_key: "same_course t i r \<longleftrightarrow> course_key r = (t, i)"
  by (auto simp add: same_course_def course_key_def)

lemma el_update_key [simp]: "course_key (el_update el ts r) = course_key r"
  by (simp add: el_update_def do_update_course_def course_key_def)

lemma el_update_twice [simp]:
  "el_update e ts (el_update el ts' r) = el_update e ts r"
  by (simp add: el_update_def do_update_course_def)

lemma without_el_update [simp]:
  "without_updated_at (el_update el ts r) = el_update el 0 (without_updated_at r)"
  by (simp add: el_update_def do_update_course_def without_updated_at_def)

lemma upsert_loop_Cons_Inr:
  assumes "upsert_loop clock (el # els) u d = Inr (n, d')"
  obtains (skip) "el_name el = []" and "upsert_loop clock els u d = Inr (n, d')"
  | (store) t i d1 where "el_name el \<noteq> []" and "el_type el = Some t" and "el_id el = Some i"
      and "sqlite_int i"
      and "courses d1 =
             (if \<exists>r \<in> set (courses d). course_key r = (t, i)
              then map (\<lambda>r. if course_key r = (t, i)
                             then el_update el (utc_now_iso (clock u)) r else r) (courses d)
              else courses d @
                     [el_update el (utc_now_iso (clock u))
                        \<lparr>courses_id = courses_seq d + 1, osm_type = t, osm_id = i, name = [],
                          lat = None, lon = None, access = None, raw_tags_json = None,
                          updated_at_utc = 0\<rparr>])"
      and "upsert_loop clock els (u + 1) d1 = Inr (n, d')"
proof (cases "el_name el = []")
  case True
  with assms skip show ?thesis by (simp add: upsert_loop_skip)
next
  case False
  from assms False obtain i where i: "el_id el = Some i"
    by (auto simp add: upsert_loop_store split: option.splits)
  from assms False i obtain d1 where
    ex: "execute_upsert_course (el_type el) i (el_name el)
           (fst (element_center_lat_lon el)) (snd (element_center_lat_lon el))
           (normalize_access (or_empty_dict (el_tags el)))
           (or_empty_dict (el_tags el)) (utc_now_iso (clock u)) d = Inr d1"
    and rest: "upsert_loop clock els (u + 1) d1 = Inr (n, d')"
    by (auto simp add: upsert_loop_store split: sum.splits)
  from ex obtain t where t: "el_type el = Some t" and si: "sqlite_int i"
    by (auto simp add: execute_upsert_course_Inr)
  from ex t have "courses d1 =
             (if \<exists>r \<in> set (courses d). course_key r = (t, i)
              then map (\<lambda>r. if course_key r = (t, i)
                             then el_update el (utc_now_iso (clock u)) r else r) (courses d)
              else courses d @
                     [el_update el (utc_now_iso (clock u))
                        \<lparr>courses_id = courses_seq d + 1, osm_type = t, osm_id = i, name = [],
                          lat = None, lon = None, access = None, raw_tags_json = None,
                          updated_at_utc = 0\<rparr>])"
    by (auto simp add: execute_upsert_course_Inr same_course_key el_update_def
          do_update_course_def)
  with False t i si rest store show ?thesis by blast
qed

lemma map_update_keys:
  "map (course_key \<circ> (\<lambda>r. if course_key r = k then el_update el ts r else r)) rows
     = map course_key rows"
  by (induction rows) auto

lemma step_keys:
  assumes "rows1 =
             (if \<exists>r \<in> set rows. course_key r = k
              then map (\<lambda>r. if course_key r = k then el_update el ts r else r) rows
              else rows @ [el_update el ts r0])"
    and "course_key r0 = k"
  shows "map course_key rows1 =
           (if k \<in> set (map course_key rows) then map course_key rows
            else map course_key rows @ [k])"
proof (cases "\<exists>r \<in> set rows. course_key r = k")
  case True
  then have "k \<in> set (map course_key rows)" by force
  with True assms show ?thesis by (simp add: map_update_keys)
next
  case False
  then have "k \<notin> set (map course_key rows)" by force
  with False assms show ?thesis by simp
qed

lemma upsert_loop_Cons_keys:
  assumes "courses d1 =
             (if \<exists>r \<in> set (courses d). course_key r = (t, i)
              then map (\<lambda>r. if course_key r = (t, i)
                             then el_update el ts r else r) (courses d)
              else courses d @
                     [el_update el ts
                        \<lparr>courses_id = rowid, osm_type = t, osm_id = i, name = [],
                          lat = None, lon = None, access = None, raw_tags_json = None,
                          updated_at_utc = 0\<rparr>])"
  shows "map course_key (courses d1) =
           (if (t, i) \<in> set (map course_key (courses d)) then map course_key (courses d)
            else map course_key (courses d) @ [(t, i)])"
  by (rule step_keys [OF assms]) (simp add: course_key_def)

lemma upsert_loop_unique:
  "upsert_loop clock els u d = Inr (n, d') \<Longrightarrow> unique_courses d \<Longrightarrow> unique_courses d'"
proof (induction els arbitrary: u d)
  case Nil
  then show ?case by simp
next
  case (Cons el els)
  from Cons.prems(1) show ?case
  proof (cases rule: upsert_loop_Cons_Inr)
    case skip
    with Cons show ?thesis by blast
  next
    case (store t i d1)
    from upsert_loop_Cons_keys [OF store(5)] Cons.prems(2) have "unique_courses d1"
      by (simp add: unique_courses_def)
    with Cons.IH store(6) show ?thesis by blast
  qed
qed

lemma upsert_loop_keys_mono:
  "upsert_loop clock els u d = Inr (n, d') \<Longrightarrow>
   set (map course_key (courses d)) \<subseteq> set (map course_key (courses d'))"
proof (induction els arbitrary: u d)
  case Nil
  then show ?case by simp
next
  case (Cons el els)
  from Cons.prems(1) show ?case
  proof (cases rule: upsert_loop_Cons_Inr)
    case skip
    with Cons show ?thesis by blast
  next
    case (store t i d1)
    from upsert_loop_Cons_keys [OF store(5)]
    have "set (map course_key (courses d)) \<subseteq> set (map course_key (courses d1))"
      by (auto split: if_splits)
    with Cons.IH [OF store(6)] show ?thesis by blast
  qed
qed

lemma upsert_loop_keys_present:
  "upsert_loop clock els u d = Inr (n, d') \<Longrightarrow> el \<in> set els \<Longrightarrow> el_name el \<noteq> [] \<Longrightarrow>
   \<exists>r \<in> set (courses d'). el_hits (course_key r) el"
proof (induction els arbitrary: u d)
  case Nil
  then show ?case by simp
next
  case (Cons x els)
  from Cons.prems(1) show ?case
  proof (cases rule: upsert_loop_Cons_Inr)
    case skip
    with Cons show ?thesis by auto
  next
    case (store t i d1)
    show ?thesis
    proof (cases "el = x")
      case True
      from upsert_loop_Cons_keys [OF store(5)]
      have "(t, i) \<in> set (map course_key (courses d1))" by (auto split: if_splits)
      with upsert_loop_keys_mono [OF store(6)]
      have "(t, i) \<in> set (map course_key (courses d'))" by blast
      then obtain r where r: "r \<in> set (courses d')" "course_key r = (t, i)" by auto
      with True store(1,2,3) have "el_hits (course_key r) el" by (simp add: el_hits_def)
      with r show ?thesis by blast
    next
      case False
      with Cons.prems have "el \<in> set els" by simp
      with Cons.IH [OF store(6)] Cons.prems(3) show ?thesis by blast
    qed
  qed
qed

lemma map_update_unique:
  assumes "distinct (map course_key rows)" and "j < length rows"
    and "course_key (rows ! j) = k"
  shows "map (\<lambda>r. if course_key r = k then g r else r) rows = rows[j := g (rows ! j)]"
proof (rule nth_equalityI)
  show "length (map (\<lambda>r. if course_key r = k then g r else r) rows)
          = length (rows[j := g (rows ! j)])"
    by simp
next
  fix m assume "m < length (map (\<lambda>r. if course_key r = k then g r else r) rows)"
  then have m: "m < length rows" by simp
  show "map (\<lambda>r. if course_key r = k then g r else r) rows ! m = rows[j := g (rows ! j)] ! m"
  proof (cases "m = j")
    case True
    with assms show ?thesis by simp
  next
    case False
    from assms(1) m assms(2) False
    have "map course_key rows ! m \<noteq> map course_key rows ! j"
      by (simp add: nth_eq_iff_index_eq del: nth_map)
    with m assms(2,3) have "course_key (rows ! m) \<noteq> k" by simp
    with m False show ?thesis by simp
  qed
qed

lemma maybe_refresh_courses_unique:
  assumes "maybe_refresh_courses service now clock la lo radius_m force d = Inr (st, d')"
    and "unique_courses d"
  shows "unique_courses d'"
proof (cases "\<exists>T. st = Using_cached T")
  case True
  with assms show ?thesis
    by (auto simp add: maybe_refresh_courses_def Let_def
             split: option.splits sum.splits if_splits prod.splits)
next
  case False
  with assms(1) obtain els n where "upsert_courses clock els d = Inr (n, d')"
    by (auto simp add: maybe_refresh_courses_def Let_def
             split: option.splits sum.splits if_splits prod.splits)
  with assms(2) show ?thesis
    by (auto simp add: upsert_courses_def intro: upsert_loop_unique)
qed

text \<open>
  C6: the course table has at most one row for each (osm_type, osm_id). This holds of
  the empty database, \<open>upsert_courses\<close> and \<open>maybe_refresh_courses\<close> keep it, and
  \<open>create_round\<close> and \<open>upsert_hole\<close> do not touch the course table. Upserting an
  element whose key is that of the row at position \<open>j\<close> puts the element's name,
  coordinates, access, tags and the time of the write into that row, where it is, and
  leaves every other row and the number of rows as they were.
\<close>

theorem courses_one_row_per_key:
  "unique_courses (init_db None)
   \<and> (unique_courses d \<and> upsert_courses clock els d = Inr (n, d1) \<longrightarrow> unique_courses d1)
   \<and> (unique_courses d
        \<and> maybe_refresh_courses service now clock la lo radius_m force d = Inr (st, d2)
        \<longrightarrow> unique_courses d2)
   \<and> (create_round now cid played tee notes d = Inr (rid, d3) \<longrightarrow> courses d3 = courses d)
   \<and> (upsert_hole rid h s p pen comment d = Inr d4 \<longrightarrow> courses d4 = courses d)
   \<and> (unique_courses d \<and> j < length (courses d) \<and> course_key (courses d ! j) = (t, i)
        \<and> el_name el \<noteq> [] \<and> el_type el = Some t \<and> el_id el = Some i \<and> sqlite_int i
        \<longrightarrow> upsert_courses clock [el] d =
              Inr (1, d\<lparr>courses := (courses d)
                         [j := (courses d ! j)
                            \<lparr>name := el_name el,
                             lat := fst (element_center_lat_lon el),
                             lon := snd (element_center_lat_lon el),
                             access := Some (normalize_access (or_empty_dict (el_tags el))),
                             raw_tags_json := Some (or_empty_dict (el_tags el)),
                             updated_at_utc := utc_now_iso (clock 0)\<rparr>],
                      courses_seq := courses_seq d + 1\<rparr>))"
proof -
  have a: "unique_courses (init_db None)"
    by (simp add: unique_courses_def init_db_def)
  have b: "unique_courses d \<and> upsert_courses clock els d = Inr (n, d1) \<longrightarrow> unique_courses d1"
    by (auto simp add: upsert_courses_def intro: upsert_loop_unique)
  have c: "unique_courses d
        \<and> maybe_refresh_courses service now clock la lo radius_m force d = Inr (st, d2)
        \<longrightarrow> unique_courses d2"
    using maybe_refresh_courses_unique by blast
  have e: "create_round now cid played tee notes d = Inr (rid, d3) \<longrightarrow> courses d3 = courses d"
    by (auto simp add: create_round_def db_def Let_def split: if_splits)
  have f: "upsert_hole rid h s p pen comment d = Inr d4 \<longrightarrow> courses d4 = courses d"
    by (auto simp add: upsert_hole_Inr)
  have g: "unique_courses d \<and> j < length (courses d) \<and> course_key (courses d ! j) = (t, i)
        \<and> el_name el \<noteq> [] \<and> el_type el = Some t \<and> el_id el = Some i \<and> sqlite_int i
        \<longrightarrow> upsert_courses clock [el] d =
              Inr (1, d\<lparr>courses := (courses d)
                         [j := (courses d ! j)
                            \<lparr>name := el_name el,
                             lat := fst (element_center_lat_lon el),
                             lon := snd (element_center_lat_lon el),
                             access := Some (normalize_access (or_empty_dict (el_tags el))),
                             raw_tags_json := Some (or_empty_dict (el_tags el)),
                             updated_at_utc := utc_now_iso (clock 0)\<rparr>],
                      courses_seq := courses_seq d + 1\<rparr>)"
  proof
    assume h: "unique_courses d \<and> j < length (courses d) \<and> course_key (courses d ! j) = (t, i)
        \<and> el_name el \<noteq> [] \<and> el_type el = Some t \<and> el_id el = Some i \<and> sqlite_int i"
    let ?g = "do_update_course (el_name el) (fst (element_center_lat_lon el))
                (snd (element_center_lat_lon el))
                (normalize_access (or_empty_dict (el_tags el)))
                (or_empty_dict (el_tags el)) (utc_now_iso (clock 0))"
    from h have present: "\<exists>r \<in> set (courses d). same_course t i r"
      by (auto simp add: same_course_key intro: nth_mem)
    from h have "map (\<lambda>r. if course_key r = (t, i) then ?g r else r) (courses d)
                   = (courses d)[j := ?g (courses d ! j)]"
      by (intro map_update_unique) (simp_all add: unique_courses_def)
    with h present show "upsert_courses clock [el] d =
              Inr (1, d\<lparr>courses := (courses d)
                         [j := (courses d ! j)
                            \<lparr>name := el_name el,
                             lat := fst (element_center_lat_lon el),
                             lon := snd (element_center_lat_lon el),
                             access := Some (normalize_access (or_empty_dict (el_tags el))),
                             raw_tags_json := Some (or_empty_dict (el_tags el)),
                             updated_at_utc := utc_now_iso (clock 0)\<rparr>],
                      courses_seq := courses_seq d + 1\<rparr>)"
      by (simp add: upsert_courses_def upsert_loop_store execute_upsert_course_def Let_def
            same_course_key do_update_course_def)
  qed
  from a b c e f g show ?thesis by blast
qed

theorem courses_one_row_per_key_witness:
  "upsert_courses (\<lambda>k. 1800000000000000)
     [\<lparr>el_type = Some ''way'', el_id = Some 7, el_lat = None, el_lon = None,
        el_center = Some (Some 39.97, Some (-75.28)),
        el_tags = Some [(''name'', ''Cobbs Creek Golf Club''), (''access'', ''yes'')]\<rparr>]
     \<lparr>courses = [\<lparr>courses_id = 1, osm_type = ''way'', osm_id = 7,
                  name = ''Cobbs Creek'', lat = None, lon = None,
                  access = Some ''unknown'',
                  raw_tags_json = Some [(''name'', ''Cobbs Creek'')],
                  updated_at_utc = 1700000000\<rparr>],
      courses_seq = 1, rounds = [], rounds_seq = 0, holes = [], holes_seq = 0\<rparr>
   = Inr (1,
     \<lparr>courses = [\<lparr>courses_id = 1, osm_type = ''way'', osm_id = 7,
                  name = ''Cobbs Creek Golf Club'', lat = Some 39.97, lon = Some (-75.28),
                  access = Some ''yes'',
                  raw_tags_json = Some [(''name'', ''Cobbs Creek Golf Club''), (''access'', ''yes'')],
                  updated_at_utc = 1800000000\<rparr>],
      courses_seq = 2, rounds = [], rounds_seq = 0, holes = [], holes_seq = 0\<rparr>)"
  using courses_one_row_per_key
          [where d = "\<lparr>courses = [\<lparr>courses_id = 1, osm_type = ''way'', osm_id = 7,
                  name = ''Cobbs Creek'', lat = None, lon = None,
                  access = Some ''unknown'',
                  raw_tags_json = Some [(''name'', ''Cobbs Creek'')],
                  updated_at_utc = 1700000000\<rparr>],
                courses_seq = 1, rounds = [], rounds_seq = 0, holes = [], holes_seq = 0\<rparr>"
             and j = 0 and t = "''way''" and i = 7
             and el = "\<lparr>el_type = Some ''way'', el_id = Some 7, el_lat = None, el_lon = None,
                el_center = Some (Some 39.97, Some (-75.28)),
                el_tags = Some [(''name'', ''Cobbs Creek Golf Club''), (''access'', ''yes'')]\<rparr>"
             and clock = "\<lambda>k. 1800000000000000"]
  by (simp add: unique_courses_def course_key_def el_name_def sqlite_int_def
        or_empty_dict_def element_center_lat_lon_def normalize_access_def utc_now_iso_def
        str_defs)

lemma last_write_skip: "el_name el = [] \<Longrightarrow> last_write k (el # els) = last_write k els"
  by (simp add: el_hits_def split: option.splits)

lemma last_write_Some: "last_write k els = Some e \<Longrightarrow> last_write k (el # els) = Some e"
  by simp

lemma last_write_None:
  "last_write k els = None \<Longrightarrow>
   last_write k (el # els) = (if el_hits k el then Some el else None)"
  by simp

declare last_write.simps(2) [simp del]

lemma upsert_loop_rows_hold:
  "upsert_loop clock els u d = Inr (n, d') \<Longrightarrow> r \<in> set (courses d') \<Longrightarrow>
   (case last_write (course_key r) els of
      Some e \<Rightarrow> without_updated_at (el_update e 0 r) = without_updated_at r
    | None \<Rightarrow> r \<in> set (courses d))"
proof (induction els arbitrary: u d)
  case Nil
  then show ?case by simp
next
  case (Cons el els)
  from Cons.prems(1) show ?case
  proof (cases rule: upsert_loop_Cons_Inr)
    case skip
    with Cons.IH [OF skip(2) Cons.prems(2)] show ?thesis by (simp add: last_write_skip)
  next
    case (store t i d1)
    note IH = Cons.IH [OF store(6) Cons.prems(2)]
    show ?thesis
    proof (cases "last_write (course_key r) els")
      case (Some e)
      with IH show ?thesis by (simp add: last_write_Some)
    next
      case None
      with IH have r1: "r \<in> set (courses d1)" by simp
      have hits: "el_hits (course_key r) el \<longleftrightarrow> course_key r = (t, i)"
        using store(1,2,3) by (auto simp add: el_hits_def)
      show ?thesis
      proof (cases "course_key r = (t, i)")
        case True
        from r1 store(5) True obtain r0 where "r = el_update el (utc_now_iso (clock u)) r0"
          by (auto split: if_splits)
        then have "without_updated_at (el_update el 0 r) = without_updated_at r"
          by simp
        with None True hits show ?thesis by (simp add: last_write_None)
      next
        case False
        with r1 store(5) have "r \<in> set (courses d)"
          by (auto simp add: course_key_def el_update_def do_update_course_def split: if_splits)
        with None False hits show ?thesis by (simp add: last_write_None)
      qed
    qed
  qed
qed

lemma upsert_loop_rows_settle:
  "upsert_loop clock els u d = Inr (n, d') \<Longrightarrow>
   \<forall>el \<in> set els. el_name el \<noteq> [] \<longrightarrow> (\<exists>r \<in> set (courses d). el_hits (course_key r) el) \<Longrightarrow>
   map without_updated_at (courses d') =
     map (\<lambda>r. without_updated_at
                 (case last_write (course_key r) els of
                    None \<Rightarrow> r | Some e \<Rightarrow> el_update e 0 r)) (courses d)"
proof (induction els arbitrary: u d)
  case Nil
  then show ?case by simp
next
  case (Cons el els)
  from Cons.prems(1) show ?case
  proof (cases rule: upsert_loop_Cons_Inr)
    case skip
    with Cons.IH [OF skip(2)] Cons.prems(2) show ?thesis by (simp add: last_write_skip)
  next
    case (store t i d1)
    let ?f = "\<lambda>r. if course_key r = (t, i) then el_update el (utc_now_iso (clock u)) r else r"
    have hits: "el_hits k el \<longleftrightarrow> k = (t, i)" for k
      using store(1,2,3) by (auto simp add: el_hits_def)
    from Cons.prems(2) store(1) have "\<exists>r \<in> set (courses d). el_hits (course_key r) el"
      by simp
    with hits have present: "\<exists>r \<in> set (courses d). course_key r = (t, i)" by simp
    with store(5) have d1: "courses d1 = map ?f (courses d)" by simp
    then have keys: "map course_key (courses d1) = map course_key (courses d)"
      by (simp add: map_update_keys)
    have "\<forall>e \<in> set els. el_name e \<noteq> [] \<longrightarrow> (\<exists>r \<in> set (courses d1). el_hits (course_key r) e)"
    proof (intro ballI impI)
      fix e assume "e \<in> set els" and "el_name e \<noteq> []"
      with Cons.prems(2) obtain r where r: "r \<in> set (courses d)" "el_hits (course_key r) e"
        by auto
      from r(1) have "course_key r \<in> set (map course_key (courses d))" by simp
      with keys have "course_key r \<in> set (map course_key (courses d1))" by simp
      then obtain r1 where "r1 \<in> set (courses d1)" "course_key r1 = course_key r" by auto
      with r(2) have "r1 \<in> set (courses d1)" "el_hits (course_key r1) e" by simp_all
      then show "\<exists>r \<in> set (courses d1). el_hits (course_key r) e" by blast
    qed
    from Cons.IH [OF store(6) this] d1
    have "map without_updated_at (courses d') =
            map (\<lambda>r. without_updated_at
                        (case last_write (course_key (?f r)) els of
                           None \<Rightarrow> ?f r | Some e \<Rightarrow> el_update e 0 (?f r))) (courses d)"
      by (simp add: comp_def)
    also have "\<dots> = map (\<lambda>r. without_updated_at
                 (case last_write (course_key r) (el # els) of
                    None \<Rightarrow> r | Some e \<Rightarrow> el_update e 0 r)) (courses d)"
      by (rule map_cong) (auto simp add: hits last_write.simps(2) split: option.splits)
    finally show ?thesis .
  qed
qed

lemma upsert_loop_count:
  "upsert_loop clock els u d = Inr (n, d') \<Longrightarrow>
   n = u + length (filter (\<lambda>el. el_name el \<noteq> []) els)
   \<and> (\<forall>el \<in> set els. el_name el \<noteq> [] \<longrightarrow>
         (\<exists>t i. el_type el = Some t \<and> el_id el = Some i \<and> sqlite_int i))"
proof (induction els arbitrary: u d)
  case Nil
  then show ?case by simp
next
  case (Cons el els)
  from Cons.prems(1) show ?case
  proof (cases rule: upsert_loop_Cons_Inr)
    case skip
    with Cons.IH [OF skip(2)] show ?thesis by simp
  next
    case (store t i d1)
    with Cons.IH [OF store(6)] show ?thesis by simp
  qed
qed

lemma upsert_loop_total:
  "\<forall>el \<in> set els. el_name el \<noteq> [] \<longrightarrow>
         (\<exists>t i. el_type el = Some t \<and> el_id el = Some i \<and> sqlite_int i) \<Longrightarrow>
   \<exists>d'. upsert_loop clock els u d =
           Inr (u + length (filter (\<lambda>el. el_name el \<noteq> []) els), d')"
proof (induction els arbitrary: u d)
  case Nil
  then show ?case by simp
next
  case (Cons el els)
  then have rest: "\<And>u d. \<exists>d'. upsert_loop clock els u d =
           Inr (u + length (filter (\<lambda>el. el_name el \<noteq> []) els), d')"
    by simp
  show ?case
  proof (cases "el_name el = []")
    case True
    with rest [of u d] show ?thesis by (simp add: upsert_loop_skip)
  next
    case False
    with Cons.prems obtain t i where ok: "el_type el = Some t" "el_id el = Some i" "sqlite_int i"
      by auto
    then obtain d1 where "execute_upsert_course (el_type el) i (el_name el)
           (fst (element_center_lat_lon el)) (snd (element_center_lat_lon el))
           (normalize_access (or_empty_dict (el_tags el)))
           (or_empty_dict (el_tags el)) (utc_now_iso (clock u)) d = Inr d1"
      by (simp add: execute_upsert_course_Inr)
    with False ok rest [of "u + 1" d1] show ?thesis
      by (simp add: upsert_loop_store)
  qed
qed

lemma execute_upsert_course_error:
  "execute_upsert_course ty i nm la lo acc raw ts d = Inl e \<Longrightarrow>
   execute_upsert_course ty i nm' la' lo' acc' raw' ts' d2 = Inl e"
  by (cases ty) (simp_all add: execute_upsert_course_def Let_def split: if_splits)

lemma execute_upsert_course_success:
  assumes "execute_upsert_course ty i nm la lo acc raw ts d = Inr d1"
  shows "\<exists>d3. execute_upsert_course ty i nm' la' lo' acc' raw' ts' d2 = Inr d3"
proof -
  from assms obtain t where "ty = Some t" and "sqlite_int i"
    by (cases ty) (simp_all add: execute_upsert_course_def split: if_splits)
  then show ?thesis
    by (simp add: execute_upsert_course_def Let_def)
qed

lemma upsert_loop_error:
  "upsert_loop clock els u d = Inl e \<Longrightarrow> upsert_loop clock' els u' d2 = Inl e"
proof (induction els arbitrary: u d u' d2)
  case Nil
  then show ?case by simp
next
  case (Cons el els)
  show ?case
  proof (cases "el_name el = []")
    case True
    with Cons.prems have "upsert_loop clock els u d = Inl e" by (simp add: upsert_loop_skip)
    from Cons.IH [OF this] True show ?thesis by (simp add: upsert_loop_skip)
  next
    case False
    show ?thesis
    proof (cases "el_id el")
      case None
      with False Cons.prems show ?thesis by (simp add: upsert_loop_store)
    next
      case (Some i)
      let ?ex = "\<lambda>ts d. execute_upsert_course (el_type el) i (el_name el)
           (fst (element_center_lat_lon el)) (snd (element_center_lat_lon el))
           (normalize_access (or_empty_dict (el_tags el)))
           (or_empty_dict (el_tags el)) ts d"
      show ?thesis
      proof (cases "?ex (utc_now_iso (clock u)) d")
        case (Inl e1)
        with False Some Cons.prems have "e1 = e" by (simp add: upsert_loop_store)
        with Inl have "?ex (utc_now_iso (clock u)) d = Inl e" by simp
        then have "?ex (utc_now_iso (clock' u')) d2 = Inl e"
          by (rule execute_upsert_course_error)
        with False Some show ?thesis by (simp add: upsert_loop_store)
      next
        case (Inr d1)
        with False Some Cons.prems have rest: "upsert_loop clock els (u + 1) d1 = Inl e"
          by (simp add: upsert_loop_store)
        from execute_upsert_course_success [OF Inr]
        obtain d3 where "?ex (utc_now_iso (clock' u')) d2 = Inr d3" by blast
        with False Some Cons.IH [OF rest] show ?thesis by (simp add: upsert_loop_store)
      qed
    qed
  qed
qed

text \<open>
  C5: when \<open>upsert_courses\<close> has stored a sequence of elements, storing the same
  sequence again succeeds with the same count and leaves the course table as the first
  run left it, row for row and id for id, except for \<open>updated_at_utc\<close>: the number of
  rows is the same and the UNIQUE constraint still holds. A run that fails fails again
  with the same error, and commits nothing either time.
\<close>

theorem upsert_courses_idempotent:
  "(upsert_courses clock els d = Inr (n, d1) \<longrightarrow>
      (\<exists>d2. upsert_courses clock' els d1 = Inr (n, d2)
          \<and> map without_updated_at (courses d2) = map without_updated_at (courses d1)
          \<and> length (courses d2) = length (courses d1)
          \<and> (unique_courses d \<longrightarrow> unique_courses d1 \<and> unique_courses d2)))
   \<and> (upsert_courses clock els d = Inl e \<longrightarrow> upsert_courses clock' els d = Inl e)"
proof (intro conjI impI)
  assume run1: "upsert_courses clock els d = Inr (n, d1)"
  then have loop1: "upsert_loop clock els 0 d = Inr (n, d1)"
    by (simp add: upsert_courses_def)
  from upsert_loop_count [OF loop1]
  have n: "n = 0 + length (filter (\<lambda>el. el_name el \<noteq> []) els)"
    and ok: "\<forall>el \<in> set els. el_name el \<noteq> [] \<longrightarrow>
               (\<exists>t i. el_type el = Some t \<and> el_id el = Some i \<and> sqlite_int i)"
    by blast+
  from upsert_loop_total [OF ok, of clock' 0 d1] n
  obtain d2 where loop2: "upsert_loop clock' els 0 d1 = Inr (n, d2)" by metis
  have "\<forall>el \<in> set els. el_name el \<noteq> [] \<longrightarrow> (\<exists>r \<in> set (courses d1). el_hits (course_key r) el)"
    using upsert_loop_keys_present [OF loop1] by blast
  from upsert_loop_rows_settle [OF loop2 this]
  have "map without_updated_at (courses d2) =
     map (\<lambda>r. without_updated_at
                 (case last_write (course_key r) els of
                    None \<Rightarrow> r | Some e \<Rightarrow> el_update e 0 r)) (courses d1)" .
  also have "\<dots> = map without_updated_at (courses d1)"
  proof (rule map_cong [OF refl])
    fix r assume "r \<in> set (courses d1)"
    from upsert_loop_rows_hold [OF loop1 this]
    show "without_updated_at
            (case last_write (course_key r) els of None \<Rightarrow> r | Some e \<Rightarrow> el_update e 0 r)
          = without_updated_at r"
      by (simp split: option.splits)
  qed
  finally have same: "map without_updated_at (courses d2) = map without_updated_at (courses d1)" .
  then have len: "length (courses d2) = length (courses d1)"
    by (rule map_eq_imp_length_eq)
  have uniq: "unique_courses d \<longrightarrow> unique_courses d1 \<and> unique_courses d2"
    using upsert_loop_unique [OF loop1] upsert_loop_unique [OF loop2] by blast
  from loop2 same len uniq
  show "\<exists>d2. upsert_courses clock' els d1 = Inr (n, d2)
          \<and> map without_updated_at (courses d2) = map without_updated_at (courses d1)
          \<and> length (courses d2) = length (courses d1)
          \<and> (unique_courses d \<longrightarrow> unique_courses d1 \<and> unique_courses d2)"
    by (auto simp add: upsert_courses_def)
next
  assume "upsert_courses clock els d = Inl e"
  then have "upsert_loop clock els 0 d = Inl e"
    by (simp add: upsert_courses_def)
  then have "upsert_loop clock' els 0 d = Inl e"
    by (rule upsert_loop_error)
  then show "upsert_courses clock' els d = Inl e"
    by (simp add: upsert_courses_def)
qed

theorem upsert_courses_idempotent_witness:
  "\<exists>d2. upsert_courses (\<lambda>k. 1800000000000000)
          [\<lparr>el_type = Some ''way'', el_id = Some 7, el_lat = None, el_lon = None,
             el_center = None, el_tags = Some [(''name'', ''Cobs Creek'')]\<rparr>,
           \<lparr>el_type = Some ''way'', el_id = Some 7, el_lat = None, el_lon = None,
             el_center = None, el_tags = Some [(''name'', ''Cobbs Creek'')]\<rparr>]
          \<lparr>courses = [\<lparr>courses_id = 1, osm_type = ''way'', osm_id = 7,
                       name = ''Cobbs Creek'', lat = None, lon = None,
                       access = Some ''unknown'',
                       raw_tags_json = Some [(''name'', ''Cobbs Creek'')],
                       updated_at_utc = 1700000000\<rparr>],
           courses_seq = 2, rounds = [], rounds_seq = 0, holes = [], holes_seq = 0\<rparr>
        = Inr (2, d2)
      \<and> map without_updated_at (courses d2) =
          [\<lparr>courses_id = 1, osm_type = ''way'', osm_id = 7, name = ''Cobbs Creek'',
            lat = None, lon = None, access = Some ''unknown'',
            raw_tags_json = Some [(''name'', ''Cobbs Creek'')], updated_at_utc = 0\<rparr>]
      \<and> length (courses d2) = 1"
proof -
  have run1: "upsert_courses (\<lambda>k. 1700000000000000)
          [\<lparr>el_type = Some ''way'', el_id = Some 7, el_lat = None, el_lon = None,
             el_center = None, el_tags = Some [(''name'', ''Cobs Creek'')]\<rparr>,
           \<lparr>el_type = Some ''way'', el_id = Some 7, el_lat = None, el_lon = None,
             el_center = None, el_tags = Some [(''name'', ''Cobbs Creek'')]\<rparr>] (init_db None)
     = Inr (2, \<lparr>courses = [\<lparr>courses_id = 1, osm_type = ''way'', osm_id = 7,
                       name = ''Cobbs Creek'', lat = None, lon = None,
                       access = Some ''unknown'',
                       raw_tags_json = Some [(''name'', ''Cobbs Creek'')],
                       updated_at_utc = 1700000000\<rparr>],
           courses_seq = 2, rounds = [], rounds_seq = 0, holes = [], holes_seq = 0\<rparr>)"
    by (simp add: course_defs)
  from upsert_courses_idempotent
         [where clock = "\<lambda>k. 1700000000000000"
            and els = "[\<lparr>el_type = Some ''way'', el_id = Some 7, el_lat = None, el_lon = None,
                el_center = None, el_tags = Some [(''name'', ''Cobs Creek'')]\<rparr>,
               \<lparr>el_type = Some ''way'', el_id = Some 7, el_lat = None, el_lon = None,
                el_center = None, el_tags = Some [(''name'', ''Cobbs Creek'')]\<rparr>]"
            and d = "init_db None" and n = 2
            and ?d1.0 = "\<lparr>courses = [\<lparr>courses_id = 1, osm_type = ''way'', osm_id = 7,
                       name = ''Cobbs Creek'', lat = None, lon = None,
                       access = Some ''unknown'',
                       raw_tags_json = Some [(''name'', ''Cobbs Creek'')],
                       updated_at_utc = 1700000000\<rparr>],
                courses_seq = 2, rounds = [], rounds_seq = 0, holes = [], holes_seq = 0\<rparr>"
            and clock' = "\<lambda>k. 1800000000000000"] run1
  show ?thesis by (auto simp add: without_updated_at_def)
qed

end
